theory Spec2Isabelle
  imports Main
begin

section \<open>Python values and exceptions\<close>

text \<open>
  Values as \<open>json.loads\<close> produces them: \<open>None\<close>, booleans, numbers, strings, lists
  and dicts. A dict is an association list read with \<open>map_of\<close>. The retrieval code
  never computes with a number, so numbers are kept as integers.
\<close>

datatype json =
    JNull
  | JBool bool
  | JNum int
  | JStr string
  | JArr "json list"
  | JObj "(string \<times> json) list"

text \<open>
  The exceptions the retrieval code can leave through. \<open>HttpError what status body\<close>
  is \<open>Exception("[error] <what>: %s - %s" % (r.status_code, r.text))\<close>; the others
  are raised by the library calls and subscripts the code performs.
\<close>

datatype error =
    HttpError string int string
  | ValueError
  | JSONDecodeError
  | KeyError string
  | TypeError
  | MockError string

text \<open>\<open>v[k]\<close> with a string key: only a dict accepts it.\<close>

fun getitem :: "json \<Rightarrow> string \<Rightarrow> error + json" where
  "getitem (JObj kvs) k = (case map_of kvs k of None \<Rightarrow> Inl (KeyError k) | Some v \<Rightarrow> Inr v)"
| "getitem v k = Inl TypeError"

text \<open>\<open>k in rsp\<close>; where the code evaluates it, \<open>rsp\<close> has already been subscripted
  with a string key, so it is a dict.\<close>

fun contains :: "string \<Rightarrow> json \<Rightarrow> bool" where
  "contains k (JObj kvs) = (map_of kvs k \<noteq> None)"
| "contains k v = False"

text \<open>\<open>for op in v\<close>: the sequence of values a \<open>for\<close> loop draws from \<open>v\<close>.\<close>

fun iter :: "json \<Rightarrow> error + json list" where
  "iter (JArr xs) = Inr xs"
| "iter (JObj kvs) = Inr (map (\<lambda>kv. JStr (fst kv)) kvs)"
| "iter (JStr s) = Inr (map (\<lambda>c. JStr [c]) s)"
| "iter v = Inl TypeError"

section \<open>Operation\<close>

record operation =
  descr :: json
  libelleOp :: json
  dateOp :: json
  montantOp :: json

definition Operation_init :: "json \<Rightarrow> error + operation" where
  "Operation_init d =
     (case getitem d ''libelleOperation'' of
        Inl e \<Rightarrow> Inl e
      | Inr l \<Rightarrow>
          (case getitem d ''dateOperation'' of
             Inl e \<Rightarrow> Inl e
           | Inr dt \<Rightarrow>
               (case getitem d ''montant'' of
                  Inl e \<Rightarrow> Inl e
                | Inr m \<Rightarrow> Inr \<lparr>descr = d, libelleOp = l, dateOp = dt, montantOp = m\<rparr>)))"

text \<open>
  The loop \<open>for op in ...: self.list_operations.append(Operation(op))\<close>: the entries
  built before a failing one stay appended.
\<close>

fun append_operations :: "json list \<Rightarrow> operation list \<Rightarrow> error option \<times> operation list" where
  "append_operations [] acc = (None, acc)"
| "append_operations (x # xs) acc =
     (case Operation_init x of
        Inl e \<Rightarrow> (Some e, acc)
      | Inr op \<Rightarrow> append_operations xs (acc @ [op]))"

section \<open>Session, requests and the outside world\<close>

record mock_config =
  useMockSuffix :: string
  writeMockSuffix :: string

record session =
  url :: string
  regional_bank_url :: string
  ssl_verify :: bool
  cookies :: "(string \<times> string) list"
  useMocks :: bool
  writeMocks :: bool
  mock_config :: mock_config

text \<open>
  A request is the URL the code concatenates, kept as the part before \<open>?\<close> and the
  \<open>key=value\<close> segments in the order the code appends them, with the \<open>verify\<close> and
  \<open>cookies\<close> arguments of \<open>requests.get\<close>.
\<close>

datatype qval = QText string | QNumber int

record request =
  resource :: string
  query :: "(string \<times> qval) list"
  verify :: bool
  req_cookies :: "(string \<times> string) list"

record response =
  status_code :: int
  resp_text :: string

text \<open>What \<open>write_json_mock\<close> is handed: a \<open>str\<close> or a decoded value.\<close>

datatype payload = RawText string | Decoded json

text \<open>The calls that leave the process, in the order they happen.\<close>

datatype event =
    HttpGet request response
  | ReadMock string
  | WriteMock string payload
  | Sleep int

record 's world =
  server :: 's
  events :: "event list"

text \<open>
  The library and the remote side, as parameters: \<open>loads\<close> is \<open>json.loads\<close>
  (\<open>None\<close> for a \<open>JSONDecodeError\<close>), \<open>timestamp\<close> is
  \<open>int(datetime.strptime(d, "%Y-%m-%d").timestamp())\<close> (\<open>None\<close> for the
  \<open>ValueError\<close> of a malformed date), \<open>quote\<close> is \<open>requests.utils.quote\<close>,
  \<open>read_json_mock\<close> is the fixture store's read (\<open>None\<close> when it raises), and
  \<open>http_get\<close> is the remote server answering \<open>requests.get\<close> from its state.
\<close>

record 's env =
  loads :: "string \<Rightarrow> json option"
  timestamp :: "string \<Rightarrow> int option"
  quote :: "string \<Rightarrow> string"
  read_json_mock :: "string \<Rightarrow> string option"
  http_get :: "'s \<Rightarrow> request \<Rightarrow> response \<times> 's"

text \<open>
  The \<open>sleep\<close> argument: \<open>None\<close>, a number (an \<open>int\<close> or a \<open>float\<close>, kept here as whole
  seconds), or any other object.
\<close>

datatype sleep_arg = SleepNone | SleepNumber int | SleepOther

text \<open>
  \<open>if sleep is not None and (isinstance(sleep, int) or isinstance(sleep, float)):
  time.sleep(sleep)\<close>; \<open>time.sleep\<close> raises \<open>ValueError\<close> on a negative length.
\<close>

definition do_sleep :: "sleep_arg \<Rightarrow> 's world \<Rightarrow> error + 's world" where
  "do_sleep sleep w =
     (case sleep of
        SleepNumber d \<Rightarrow>
          (if d < 0 then Inl ValueError else Inr (w\<lparr>events := events w @ [Sleep d]\<rparr>))
      | _ \<Rightarrow> Inr w)"

section \<open>Operations: the windowed retrieval\<close>

record ops_base =
  session :: session
  compteIdx :: string
  grandeFamilleCode :: string
  list_operations :: "operation list"

record operations = ops_base +
  date_start :: string
  date_stop :: string

definition mock_file_base :: "operations \<Rightarrow> string" where
  "mock_file_base self =
     ''account-'' @ grandeFamilleCode self @ ''-'' @ compteIdx self @ ''_operations''"

definition read_name :: "operations \<Rightarrow> string" where
  "read_name self =
     mock_file_base self @ ''_'' @ useMockSuffix (mock_config (session self)) @ ''.json''"

definition write_name :: "operations \<Rightarrow> string" where
  "write_name self =
     mock_file_base self @ ''_'' @ writeMockSuffix (mock_config (session self)) @ ''.json''"

text \<open>\<open>"{ \"listeOperations\": " + data + "}"\<close>\<close>

definition wrap :: "string \<Rightarrow> string" where
  "wrap data = ''{ '' @ [CHR 0x22] @ ''listeOperations'' @ [CHR 0x22] @ '': '' @ data @ ''}''"

text \<open>Lines 184 to 193: the URL of one page request.\<close>

definition build_request ::
  "'s env \<Rightarrow> operations \<Rightarrow> int \<Rightarrow> int \<Rightarrow> json \<Rightarrow> int \<Rightarrow> error + request" where
  "build_request env self ts_date_debut ts_date_fin startIndex limit =
     (let res = url (session self) @ ''/'' @ regional_bank_url (session self)
                @ ''/particulier/operations/synthese/detail-comptes/''
                @ ''jcr:content.n3.operations.json'';
          q = [(''grandeFamilleCode'', QText (grandeFamilleCode self)),
               (''compteIdx'', QText (compteIdx self)),
               (''idDevise'', QText ''EUR''),
               (''dateDebut'', QNumber ts_date_debut)];
          mk = (\<lambda>qs. \<lparr>resource = res, query = qs @ [(''count'', QNumber limit)],
                      verify = ssl_verify (session self),
                      req_cookies = cookies (session self)\<rparr>)
      in case startIndex of
           JNull \<Rightarrow> Inr (mk (q @ [(''dateFin'', QNumber ts_date_fin)]))
         | JStr s \<Rightarrow> Inr (mk (q @ [(''startIndex'', QText (quote env s))]))
         | _ \<Rightarrow> Inl TypeError)"

text \<open>Lines 177 to 203: the text of one page, from the fixture or from the server.\<close>

definition fetch_data ::
  "'s env \<Rightarrow> operations \<Rightarrow> int \<Rightarrow> int \<Rightarrow> json \<Rightarrow> int \<Rightarrow> 's world
     \<Rightarrow> (error + string) \<times> 's world" where
  "fetch_data env self ts_date_debut ts_date_fin startIndex limit w =
     (if useMocks (session self) then
        (let w1 = w\<lparr>events := events w @ [ReadMock (read_name self)]\<rparr>
         in case read_json_mock env (read_name self) of
              None \<Rightarrow> (Inl (MockError (read_name self)), w1)
            | Some data \<Rightarrow> (Inr (wrap data), w1))
      else
        (case build_request env self ts_date_debut ts_date_fin startIndex limit of
           Inl e \<Rightarrow> (Inl e, w)
         | Inr rq \<Rightarrow>
             (let r = fst (http_get env (server w) rq);
                  w1 = w\<lparr>server := snd (http_get env (server w) rq),
                         events := events w @ [HttpGet rq r]\<rparr>
              in if status_code r \<noteq> 200 then
                   (Inl (HttpError ''get operations'' (status_code r) (resp_text r)), w1)
                 else if writeMocks (session self) then
                   (case loads env (resp_text r) of
                      None \<Rightarrow> (Inl JSONDecodeError, w1)
                    | Some v \<Rightarrow>
                        (case getitem v ''listeOperations'' of
                           Inl e \<Rightarrow> (Inl e, w1)
                         | Inr operations_data \<Rightarrow>
                             (Inr (resp_text r),
                              w1\<lparr>events := events w1
                                   @ [WriteMock (write_name self) (Decoded operations_data)]\<rparr>)))
                 else (Inr (resp_text r), w1))))"

text \<open>Lines 205 to 208: decode the page and append its entries.\<close>

definition save_operations ::
  "'s env \<Rightarrow> string \<Rightarrow> operations \<Rightarrow> (error + json) \<times> operations" where
  "save_operations env data self =
     (case loads env data of
        None \<Rightarrow> (Inl JSONDecodeError, self)
      | Some rsp \<Rightarrow>
          (case getitem rsp ''listeOperations'' of
             Inl e \<Rightarrow> (Inl e, self)
           | Inr l \<Rightarrow>
               (case iter l of
                  Inl e \<Rightarrow> (Inl e, self)
                | Inr xs \<Rightarrow>
                    (case append_operations xs (list_operations self) of
                       (Some e, acc) \<Rightarrow> (Inl e, self\<lparr>list_operations := acc\<rparr>)
                     | (None, acc) \<Rightarrow> (Inr rsp, self\<lparr>list_operations := acc\<rparr>)))))"

text \<open>Lines 163 to 208: one page, up to the decision to continue.\<close>

definition fetch_page ::
  "'s env \<Rightarrow> json \<Rightarrow> int \<Rightarrow> operations \<Rightarrow> 's world
     \<Rightarrow> (error + json) \<times> operations \<times> 's world" where
  "fetch_page env startIndex limit self w =
     (case timestamp env (date_start self) of
        None \<Rightarrow> (Inl ValueError, self, w)
      | Some ts_date_debut \<Rightarrow>
          (case timestamp env (date_stop self) of
             None \<Rightarrow> (Inl ValueError, self, w)
           | Some ts_date_fin \<Rightarrow>
               (case fetch_data env self (ts_date_debut * 1000) (ts_date_fin * 1000)
                       startIndex limit w of
                  (Inl e, w1) \<Rightarrow> (Inl e, self, w1)
                | (Inr data, w1) \<Rightarrow>
                    (case save_operations env data self of
                       (Inl e, self1) \<Rightarrow> (Inl e, self1, w1)
                     | (Inr rsp, self1) \<Rightarrow> (Inr rsp, self1, w1)))))"

text \<open>Lines 170 to 173.\<close>

definition nextCount :: "int \<Rightarrow> int \<Rightarrow> int" where
  "nextCount count limit = (if count > limit then count - limit else 0)"

text \<open>Line 210: the test that lets the retrieval go on to another page.\<close>

definition continues :: "int \<Rightarrow> int \<Rightarrow> json \<Rightarrow> bool" where
  "continues count limit rsp \<longleftrightarrow>
     nextCount count limit > 0 \<and> contains ''nextSetStartIndex'' rsp \<and> contains ''hasNext'' rsp
     \<and> getitem rsp ''hasNext'' = Inr (JBool True)"

text \<open>
  \<open>Operations.get_operations(count, startIndex=None, limit=30, sleep=None)\<close>. The
  recursive call of line 213 passes \<open>nextCount\<close> and the cursor only, so the callee runs
  with \<open>limit = 30\<close> and \<open>sleep = None\<close>. The interpreter's call stack is taken to be
  as deep as the retrieval needs.
\<close>

function get_operations ::
  "'s env \<Rightarrow> int \<Rightarrow> json \<Rightarrow> int \<Rightarrow> sleep_arg \<Rightarrow> operations \<Rightarrow> 's world
     \<Rightarrow> error option \<times> operations \<times> 's world" where
  "get_operations env count startIndex limit sleep self w =
     (case fetch_page env startIndex limit self w of
        (Inl e, self1, w1) \<Rightarrow> (Some e, self1, w1)
      | (Inr rsp, self1, w1) \<Rightarrow>
          (if continues count limit rsp then
             (case do_sleep sleep w1 of
                Inl e \<Rightarrow> (Some e, self1, w1)
              | Inr w2 \<Rightarrow>
                  (case getitem rsp ''nextSetStartIndex'' of
                     Inl e \<Rightarrow> (Some e, self1, w2)
                   | Inr cursor \<Rightarrow>
                       get_operations env (nextCount count limit) cursor 30 SleepNone self1 w2))
           else (None, self1, w1)))"
  by pat_completeness auto
termination
  by (relation "measure (\<lambda>(env, count, startIndex, limit, sleep, self, w).
        if limit = 30 then nat count else nat (count - limit) + 1)")
     (auto simp: continues_def nextCount_def split: if_splits)

text \<open>
  \<open>Operations.__init__\<close>: the object starts with an empty list and is handed to the
  caller only if \<open>get_operations\<close> returns; an exception leaves the constructor and no
  object exists. The constructor passes \<open>count\<close> (100 when omitted) and \<open>sleep\<close>, and
  leaves \<open>startIndex\<close> and \<open>limit\<close> at their defaults.
\<close>

definition Operations_init ::
  "'s env \<Rightarrow> session \<Rightarrow> string \<Rightarrow> string \<Rightarrow> string \<Rightarrow> string \<Rightarrow> int \<Rightarrow> sleep_arg \<Rightarrow> 's world
     \<Rightarrow> (error + operations) \<times> 's world" where
  "Operations_init env sess cIdx gfCode dstart dstop count sleep w =
     (let self = \<lparr>session = sess, compteIdx = cIdx, grandeFamilleCode = gfCode,
                  list_operations = [], date_start = dstart, date_stop = dstop\<rparr>
      in case get_operations env count JNull 30 sleep self w of
           (Some e, self1, w1) \<Rightarrow> (Inl e, w1)
         | (None, self1, w1) \<Rightarrow> (Inr self1, w1))"

section \<open>DeferredOperations: the card retrieval\<close>

record deferred_operations = ops_base +
  carteIdx :: string

definition card_file_base :: "deferred_operations \<Rightarrow> string" where
  "card_file_base self = ''card-'' @ carteIdx self @ ''_operations''"

definition card_read_name :: "deferred_operations \<Rightarrow> string" where
  "card_read_name self =
     card_file_base self @ ''_'' @ useMockSuffix (mock_config (session self)) @ ''.json''"

definition card_write_name :: "deferred_operations \<Rightarrow> string" where
  "card_write_name self =
     card_file_base self @ ''_'' @ writeMockSuffix (mock_config (session self)) @ ''.json''"

text \<open>Lines 85 to 89.\<close>

definition deferred_request :: "deferred_operations \<Rightarrow> request" where
  "deferred_request self =
     \<lparr>resource = url (session self) @ ''/'' @ regional_bank_url (session self)
                  @ ''/particulier/operations/synthese/detail-comptes/''
                  @ ''jcr:content.n3.operations.encours.carte.debit.differe.json'',
      query = [(''grandeFamilleCode'', QText (grandeFamilleCode self)),
               (''compteIdx'', QText (compteIdx self)),
               (''carteIdx'', QText (carteIdx self))],
      verify = ssl_verify (session self),
      req_cookies = cookies (session self)\<rparr>"

text \<open>Lines 80 to 92.\<close>

definition deferred_fetch_data ::
  "'s env \<Rightarrow> deferred_operations \<Rightarrow> 's world \<Rightarrow> (error + string) \<times> 's world" where
  "deferred_fetch_data env self w =
     (if useMocks (session self) then
        (let w1 = w\<lparr>events := events w @ [ReadMock (card_read_name self)]\<rparr>
         in case read_json_mock env (card_read_name self) of
              None \<Rightarrow> (Inl (MockError (card_read_name self)), w1)
            | Some data \<Rightarrow> (Inr data, w1))
      else
        (let rq = deferred_request self;
             r = fst (http_get env (server w) rq);
             w1 = w\<lparr>server := snd (http_get env (server w) rq),
                    events := events w @ [HttpGet rq r]\<rparr>
         in if status_code r \<noteq> 200 then
              (Inl (HttpError ''get deferred operations'' (status_code r) (resp_text r)), w1)
            else (Inr (resp_text r), w1)))"

text \<open>\<open>DeferredOperations.get_operations()\<close>, lines 78 to 100.\<close>

definition deferred_get_operations ::
  "'s env \<Rightarrow> deferred_operations \<Rightarrow> 's world
     \<Rightarrow> error option \<times> deferred_operations \<times> 's world" where
  "deferred_get_operations env self w =
     (case deferred_fetch_data env self w of
        (Inl e, w1) \<Rightarrow> (Some e, self, w1)
      | (Inr data, w1) \<Rightarrow>
          (let w2 = (if writeMocks (session self)
                     then w1\<lparr>events := events w1
                               @ [WriteMock (card_write_name self) (RawText data)]\<rparr>
                     else w1)
           in case loads env data of
                None \<Rightarrow> (Some JSONDecodeError, self, w2)
              | Some v \<Rightarrow>
                  (case iter v of
                     Inl e \<Rightarrow> (Some e, self, w2)
                   | Inr xs \<Rightarrow>
                       (case append_operations xs (list_operations self) of
                          (r, acc) \<Rightarrow> (r, self\<lparr>list_operations := acc\<rparr>, w2)))))"

definition DeferredOperations_init ::
  "'s env \<Rightarrow> session \<Rightarrow> string \<Rightarrow> string \<Rightarrow> string \<Rightarrow> 's world
     \<Rightarrow> (error + deferred_operations) \<times> 's world" where
  "DeferredOperations_init env sess cIdx gfCode kIdx w =
     (let self = \<lparr>session = sess, compteIdx = cIdx, grandeFamilleCode = gfCode,
                  list_operations = [], carteIdx = kIdx\<rparr>
      in case deferred_get_operations env self w of
           (Some e, self1, w1) \<Rightarrow> (Inl e, w1)
         | (None, self1, w1) \<Rightarrow> (Inr self1, w1))"

section \<open>Reading a run\<close>

text \<open>The events a call added to the world it started from.\<close>

definition new_events :: "'s world \<Rightarrow> 's world \<Rightarrow> event list" where
  "new_events w w' = drop (length (events w)) (events w')"

fun is_fetch :: "event \<Rightarrow> bool" where
  "is_fetch (HttpGet rq r) = True"
| "is_fetch (ReadMock name) = True"
| "is_fetch ev = False"

fun is_write :: "event \<Rightarrow> bool" where
  "is_write (WriteMock name p) = True"
| "is_write ev = False"

fun is_sleep :: "event \<Rightarrow> bool" where
  "is_sleep (Sleep d) = True"
| "is_sleep ev = False"

fun failed_get :: "event \<Rightarrow> bool" where
  "failed_get (HttpGet rq r) = (status_code r \<noteq> 200)"
| "failed_get ev = False"

text \<open>The text a fetch obtained: the response body, or the wrapped fixture content.\<close>

fun page_text :: "'s env \<Rightarrow> event \<Rightarrow> string option" where
  "page_text env (HttpGet rq r) = Some (resp_text r)"
| "page_text env (ReadMock name) = map_option wrap (read_json_mock env name)"
| "page_text env ev = None"

text \<open>The entries of a page text: what the loop of line 207 iterates over.\<close>

definition decode_entries :: "'s env \<Rightarrow> string \<Rightarrow> json list option" where
  "decode_entries env data =
     (case loads env data of
        None \<Rightarrow> None
      | Some rsp \<Rightarrow>
          (case getitem rsp ''listeOperations'' of
             Inl e \<Rightarrow> None
           | Inr l \<Rightarrow> (case iter l of Inl e \<Rightarrow> None | Inr xs \<Rightarrow> Some xs)))"

definition page_entries :: "'s env \<Rightarrow> event \<Rightarrow> json list" where
  "page_entries env ev =
     (case page_text env ev of
        None \<Rightarrow> []
      | Some data \<Rightarrow> (case decode_entries env data of None \<Rightarrow> [] | Some xs \<Rightarrow> xs))"

text \<open>The object a page left unchanged but for its list.\<close>

definition same_config :: "operations \<Rightarrow> operations \<Rightarrow> bool" where
  "same_config self self1 \<longleftrightarrow> self1 = self\<lparr>list_operations := list_operations self1\<rparr>"

text \<open>
  A fetch that went through: the status is 200, the text decodes, it has a
  \<open>listeOperations\<close> that can be iterated, and every entry makes an Operation.
\<close>

definition page_ok :: "'s env \<Rightarrow> event \<Rightarrow> bool" where
  "page_ok env ev \<longleftrightarrow>
     \<not> failed_get ev \<and>
     (is_fetch ev \<longrightarrow>
        (case page_text env ev of
           None \<Rightarrow> False
         | Some data \<Rightarrow>
             (case decode_entries env data of
                None \<Rightarrow> False
              | Some xs \<Rightarrow> list_all (\<lambda>x. \<not> isl (Operation_init x)) xs)))"


definition has_param :: "string \<Rightarrow> request \<Rightarrow> bool" where
  "has_param k rq \<longleftrightarrow> map_of (query rq) k \<noteq> None"

fun count_param :: "event \<Rightarrow> qval option" where
  "count_param (HttpGet rq r) = map_of (query rq) ''count''"
| "count_param ev = None"






text \<open>
  A response that announces more: status 200, a text that decodes to a dict whose
  \<open>listeOperations\<close> entries all make Operations, \<open>hasNext\<close> true and a string cursor.
\<close>

definition more_page :: "'s env \<Rightarrow> response \<Rightarrow> bool" where
  "more_page env r \<longleftrightarrow>
     status_code r = 200 \<and>
     (case loads env (resp_text r) of
        None \<Rightarrow> False
      | Some rsp \<Rightarrow>
          (case decode_entries env (resp_text r) of
             None \<Rightarrow> False
           | Some xs \<Rightarrow> list_all (\<lambda>x. \<not> isl (Operation_init x)) xs)
          \<and> getitem rsp ''hasNext'' = Inr (JBool True)
          \<and> (case getitem rsp ''nextSetStartIndex'' of Inr (JStr c) \<Rightarrow> True | _ \<Rightarrow> False))"

section \<open>Sample inputs\<close>

text \<open>
  A small decoder table, a fixture store with one file and servers that count the
  requests they have answered, for running the model on concrete retrievals.
\<close>

definition demo_timestamp :: "string \<Rightarrow> int option" where
  "demo_timestamp d =
     (if d = ''2024-01-01'' then Some 1704067200
      else if d = ''2024-01-31'' then Some 1706659200 else None)"

definition demo_op :: "string \<Rightarrow> json" where
  "demo_op l = JObj [(''libelleOperation'', JStr l), (''dateOperation'', JStr ''2024-01-15''), (''montant'', JNum (-12))]"

definition demo_loads :: "string \<Rightarrow> json option" where
  "demo_loads t =
     (if t = ''more'' then
        Some (JObj [(''listeOperations'', JArr [demo_op ''a'', demo_op ''b'']),
                    (''hasNext'', JBool True), (''nextSetStartIndex'', JStr ''X'')])
      else if t = ''last'' then
        Some (JObj [(''listeOperations'', JArr [demo_op ''c'']), (''hasNext'', JBool False)])
      else if t = ''[]'' then Some (JArr [])
      else if t = wrap ''[]'' then Some (JObj [(''listeOperations'', JArr [])])
      else None)"

definition demo_env :: "(nat \<Rightarrow> request \<Rightarrow> response \<times> nat) \<Rightarrow> nat env" where
  "demo_env srv = \<lparr>loads = demo_loads, timestamp = demo_timestamp, quote = (\<lambda>s. s),
     read_json_mock =
       (\<lambda>n. if n = ''account-7-1_operations_mock.json'' \<or> n = ''card-9_operations_mock.json''
            then Some ''[]'' else None),
     http_get = srv\<rparr>"

definition always_more :: "nat \<Rightarrow> request \<Rightarrow> response \<times> nat" where
  "always_more n rq = (\<lparr>status_code = 200, resp_text = ''more''\<rparr>, Suc n)"

definition two_pages :: "nat \<Rightarrow> request \<Rightarrow> response \<times> nat" where
  "two_pages n rq = (\<lparr>status_code = 200, resp_text = (if n = 0 then ''more'' else ''last'')\<rparr>, Suc n)"

definition demo_session :: "bool \<Rightarrow> bool \<Rightarrow> session" where
  "demo_session use wr = \<lparr>url = ''https://bank'', regional_bank_url = ''ca-x'', ssl_verify = True, cookies = [],
     useMocks = use, writeMocks = wr,
     mock_config = \<lparr>useMockSuffix = ''mock'', writeMockSuffix = ''new''\<rparr>\<rparr>"

definition demo_self :: "bool \<Rightarrow> bool \<Rightarrow> operations" where
  "demo_self use wr = \<lparr>session = demo_session use wr, compteIdx = ''1'', grandeFamilleCode = ''7'',
     list_operations = [], date_start = ''2024-01-01'', date_stop = ''2024-01-31''\<rparr>"

definition demo_world :: "nat world" where
  "demo_world = \<lparr>server = 0, events = []\<rparr>"

definition fail_second :: "nat \<Rightarrow> request \<Rightarrow> response \<times> nat" where
  "fail_second n rq =
     ((if n = 0 then \<lparr>status_code = 200, resp_text = ''more''\<rparr>
       else \<lparr>status_code = 500, resp_text = ''down''\<rparr>), Suc n)"

definition always_down :: "nat \<Rightarrow> request \<Rightarrow> response \<times> nat" where
  "always_down n rq = (\<lparr>status_code = 500, resp_text = ''down''\<rparr>, Suc n)"

definition bare_list :: "nat \<Rightarrow> request \<Rightarrow> response \<times> nat" where
  "bare_list n rq = (\<lparr>status_code = 200, resp_text = ''[]''\<rparr>, Suc n)"

definition demo_card :: "bool \<Rightarrow> bool \<Rightarrow> deferred_operations" where
  "demo_card use wr = \<lparr>session = demo_session use wr, compteIdx = ''1'', grandeFamilleCode = ''7'',
     list_operations = [], carteIdx = ''9''\<rparr>"

abbreviation failing_run :: "error option \<times> operations \<times> nat world" where
  "failing_run \<equiv> get_operations (demo_env fail_second) 90 JNull 30 SleepNone
     (demo_self False False) demo_world"

abbreviation failing_card_run :: "error option \<times> deferred_operations \<times> nat world" where
  "failing_card_run \<equiv>
     deferred_get_operations (demo_env always_down) (demo_card False False) demo_world"

abbreviation small_run :: "error option \<times> operations \<times> nat world" where
  "small_run \<equiv> get_operations (demo_env two_pages) 10 JNull 30 SleepNone
     (demo_self False False) demo_world"




abbreviation two_page_run :: "error option \<times> operations \<times> nat world" where
  "two_page_run \<equiv> get_operations (demo_env two_pages) 50 JNull 30 SleepNone
     (demo_self False False) demo_world"

definition first_request :: request where
  "first_request =
     \<lparr>resource = ''https://bank/ca-x/particulier/operations/synthese/detail-comptes/jcr:content.n3.operations.json'',
      query = [(''grandeFamilleCode'', QText ''7''), (''compteIdx'', QText ''1''),
               (''idDevise'', QText ''EUR''), (''dateDebut'', QNumber 1704067200000),
               (''dateFin'', QNumber 1706659200000), (''count'', QNumber 30)],
      verify = True, req_cookies = []\<rparr>"

definition second_request :: request where
  "second_request =
     \<lparr>resource = ''https://bank/ca-x/particulier/operations/synthese/detail-comptes/jcr:content.n3.operations.json'',
      query = [(''grandeFamilleCode'', QText ''7''), (''compteIdx'', QText ''1''),
               (''idDevise'', QText ''EUR''), (''dateDebut'', QNumber 1704067200000),
               (''startIndex'', QText ''X''), (''count'', QNumber 30)],
      verify = True, req_cookies = []\<rparr>"

abbreviation one_record_run :: "error option \<times> operations \<times> nat world" where
  "one_record_run \<equiv> get_operations (demo_env two_pages) 1 JNull 30 SleepNone
     (demo_self False False) demo_world"

abbreviation sleep_run :: "error option \<times> operations \<times> nat world" where
  "sleep_run \<equiv> get_operations (demo_env always_more) 90 JNull 30 (SleepNumber 2)
     (demo_self False False) demo_world"

abbreviation small_limit_run :: "error option \<times> operations \<times> nat world" where
  "small_limit_run \<equiv> get_operations (demo_env always_more) 50 JNull 10 SleepNone
     (demo_self False False) demo_world"

lemmas demo_defs = demo_timestamp_def demo_op_def demo_loads_def demo_env_def always_more_def
  two_pages_def fail_second_def always_down_def bare_list_def demo_session_def demo_self_def
  demo_card_def demo_world_def

lemmas model_defs = fetch_page_def fetch_data_def build_request_def save_operations_def
  continues_def nextCount_def do_sleep_def Operation_init_def read_name_def write_name_def
  mock_file_base_def deferred_get_operations_def deferred_fetch_data_def deferred_request_def
  card_read_name_def card_write_name_def card_file_base_def

section \<open>The shape of a run\<close>

declare get_operations.simps [simp del]

lemma get_operations_run_induct [consumes 1, case_names fail stop sleep_fail continue]:
  assumes run: "get_operations env count startIndex limit sleep self w = (res, self', w')"
    and fail: "\<And>count startIndex limit sleep self w e self1 w1.
        fetch_page env startIndex limit self w = (Inl e, self1, w1)
        \<Longrightarrow> P count startIndex limit sleep self w (Some e) self1 w1"
    and stop: "\<And>count startIndex limit sleep self w rsp self1 w1.
        fetch_page env startIndex limit self w = (Inr rsp, self1, w1)
        \<Longrightarrow> \<not> continues count limit rsp
        \<Longrightarrow> P count startIndex limit sleep self w None self1 w1"
    and sleep_fail: "\<And>count startIndex limit sleep self w rsp self1 w1 e.
        fetch_page env startIndex limit self w = (Inr rsp, self1, w1)
        \<Longrightarrow> continues count limit rsp \<Longrightarrow> do_sleep sleep w1 = Inl e
        \<Longrightarrow> P count startIndex limit sleep self w (Some e) self1 w1"
    and continue: "\<And>count startIndex limit sleep self w rsp self1 w1 w2 cursor res self' w'.
        fetch_page env startIndex limit self w = (Inr rsp, self1, w1)
        \<Longrightarrow> continues count limit rsp \<Longrightarrow> do_sleep sleep w1 = Inr w2
        \<Longrightarrow> getitem rsp ''nextSetStartIndex'' = Inr cursor
        \<Longrightarrow> get_operations env (nextCount count limit) cursor 30 SleepNone self1 w2 = (res, self', w')
        \<Longrightarrow> P (nextCount count limit) cursor 30 SleepNone self1 w2 res self' w'
        \<Longrightarrow> P count startIndex limit sleep self w res self' w'"
  shows "P count startIndex limit sleep self w res self' w'"
  using run fail stop sleep_fail continue
proof (induction env count startIndex limit sleep self w arbitrary: res self' w'
    rule: get_operations.induct)
  case (1 env count startIndex limit sleep self w)
  note run = "1.prems"(1) and fail = "1.prems"(2) and stop = "1.prems"(3)
    and sleep_fail = "1.prems"(4) and continue = "1.prems"(5)
  obtain r self1 w1 where fp: "fetch_page env startIndex limit self w = (r, self1, w1)"
    by (cases "fetch_page env startIndex limit self w") auto
  show ?case
  proof (cases r)
    case (Inl e)
    with fp run have "(res, self', w') = (Some e, self1, w1)"
      by (simp add: get_operations.simps)
    with fail [OF fp [unfolded Inl]] show ?thesis by simp
  next
    case (Inr rsp)
    note fp' = fp [unfolded Inr]
    show ?thesis
    proof (cases "continues count limit rsp")
      case False
      with fp' run have "(res, self', w') = (None, self1, w1)"
        by (simp add: get_operations.simps)
      with stop [OF fp' False] show ?thesis by simp
    next
      case True
      show ?thesis
      proof (cases "do_sleep sleep w1")
        case (Inl e)
        with fp' True run have "(res, self', w') = (Some e, self1, w1)"
          by (simp add: get_operations.simps)
        with sleep_fail [OF fp' True Inl] show ?thesis by simp
      next
        case sl: (Inr w2)
        from True obtain cursor where cur: "getitem rsp ''nextSetStartIndex'' = Inr cursor"
          by (cases rsp) (auto simp: continues_def split: option.splits)
        from fp' True sl cur run
        have rec: "get_operations env (nextCount count limit) cursor 30 SleepNone self1 w2
                    = (res, self', w')"
          by (simp add: get_operations.simps)
        have "P (nextCount count limit) cursor 30 SleepNone self1 w2 res self' w'"
          using "1.IH" [OF fp' [symmetric] refl refl True sl cur rec fail stop sleep_fail continue] .
        from continue [OF fp' True sl cur rec this] show ?thesis .
      qed
    qed
  qed
qed

lemma new_events_eq: "events w' = events w @ evs \<Longrightarrow> new_events w w' = evs"
  by (simp add: new_events_def)

lemma new_events_trans:
  "events w1 = events w @ new_events w w1 \<Longrightarrow> events w2 = events w1 @ new_events w1 w2
   \<Longrightarrow> events w2 = events w @ new_events w w2 \<and> new_events w w2 = new_events w w1 @ new_events w1 w2"
  by (metis append.assoc new_events_eq)

lemma append_operations_appends:
  "append_operations xs acc = (r, acc') \<Longrightarrow>
     \<exists>ops. acc' = acc @ ops \<and> (r = None \<longrightarrow> map Operation_init xs = map Inr ops)"
proof (induction xs arbitrary: acc)
  case Nil
  then show ?case by simp
next
  case (Cons x xs)
  show ?case
  proof (cases "Operation_init x")
    case (Inl e)
    with Cons.prems show ?thesis by auto
  next
    case (Inr op)
    with Cons.prems have "append_operations xs (acc @ [op]) = (r, acc')" by simp
    from Cons.IH [OF this] obtain ops where
      "acc' = (acc @ [op]) @ ops" "r = None \<longrightarrow> map Operation_init xs = map Inr ops" by blast
    with Inr have "acc' = acc @ (op # ops)
        \<and> (r = None \<longrightarrow> map Operation_init (x # xs) = map Inr (op # ops))"
      by simp
    then show ?thesis by blast
  qed
qed

lemma save_operations_ok:
  assumes "save_operations env data self = (Inr rsp, self1)"
  shows "loads env data = Some rsp"
    and "\<exists>xs ops. decode_entries env data = Some xs
           \<and> list_operations self1 = list_operations self @ ops
           \<and> map Operation_init xs = map Inr ops"
  using assms
  by (auto simp: save_operations_def decode_entries_def
      split: option.splits sum.splits prod.splits dest!: append_operations_appends)

lemma save_operations_frame:
  "save_operations env data self = (r, self1) \<Longrightarrow> same_config self self1"
  by (auto simp: save_operations_def same_config_def
      split: option.splits sum.splits prod.splits)

text \<open>What a successful \<open>fetch_data\<close> added: one fetch, then the recording if any.\<close>

lemma fetch_data_ok:
  assumes "fetch_data env self t1 t2 si limit w = (Inr data, w1)"
  shows "\<exists>ev ws. events w1 = events w @ ev # ws \<and> is_fetch ev \<and> \<not> failed_get ev
           \<and> page_text env ev = Some data \<and> list_all is_write ws"
  using assms
  by (auto simp: fetch_data_def Let_def split: if_splits option.splits sum.splits)

lemma fetch_data_prefix:
  "fetch_data env self t1 t2 si limit w = (r, w1) \<Longrightarrow> events w1 = events w @ new_events w w1"
  by (auto simp: fetch_data_def new_events_def Let_def split: if_splits option.splits sum.splits)

lemma fetch_page_prefix:
  "fetch_page env si limit self w = (r, self1, w1) \<Longrightarrow> events w1 = events w @ new_events w w1"
  by (auto simp: fetch_page_def new_events_def split: option.splits sum.splits prod.splits
      dest!: fetch_data_prefix)

lemma fetch_page_frame:
  "fetch_page env si limit self w = (r, self1, w1) \<Longrightarrow> same_config self self1"
  by (auto simp: fetch_page_def split: option.splits sum.splits prod.splits
      dest!: save_operations_frame) (auto simp: same_config_def)

lemma fetch_page_ok:
  assumes "fetch_page env si limit self w = (Inr rsp, self1, w1)"
  shows "\<exists>ev ws data xs ops. new_events w w1 = ev # ws \<and> is_fetch ev \<and> \<not> failed_get ev
           \<and> list_all is_write ws
           \<and> page_text env ev = Some data \<and> loads env data = Some rsp
           \<and> decode_entries env data = Some xs
           \<and> list_operations self1 = list_operations self @ ops
           \<and> map Operation_init xs = map Inr ops"
proof -
  from assms obtain t1 t2 data where
    fd: "fetch_data env self t1 t2 si limit w = (Inr data, w1)"
    and so: "save_operations env data self = (Inr rsp, self1)"
    by (auto simp: fetch_page_def split: option.splits sum.splits prod.splits)
  from fetch_data_ok [OF fd] obtain ev ws where
    "events w1 = events w @ ev # ws" "is_fetch ev" "\<not> failed_get ev"
    "page_text env ev = Some data" "list_all is_write ws"
    by blast
  moreover note save_operations_ok [OF so]
  ultimately show ?thesis
    by (auto simp: new_events_eq)
qed

lemma do_sleep_events:
  "do_sleep sleep w1 = Inr w2 \<Longrightarrow>
     events w2 = events w1 @ new_events w1 w2 \<and> list_all is_sleep (new_events w1 w2)"
  by (auto simp: do_sleep_def new_events_def split: sleep_arg.splits if_splits)

lemma get_operations_prefix:
  "get_operations env count startIndex limit sleep self w = (res, self', w')
   \<Longrightarrow> events w' = events w @ new_events w w'"
proof (induction rule: get_operations_run_induct)
  case (continue count startIndex limit sleep self w rsp self1 w1 w2 cursor res self' w')
  from fetch_page_prefix [OF continue(1)] do_sleep_events [OF continue(3)] continue(6)
  show ?case
    by (metis new_events_trans)
qed (auto dest: fetch_page_prefix)

lemma get_operations_split:
  assumes "fetch_page env startIndex limit self w = (Inr rsp, self1, w1)"
    and "do_sleep sleep w1 = Inr w2"
    and "get_operations env c cursor l s self1 w2 = (res, self', w')"
  shows "new_events w w' = new_events w w1 @ new_events w1 w2 @ new_events w2 w'"
  using fetch_page_prefix [OF assms(1)] do_sleep_events [OF assms(2)]
    get_operations_prefix [OF assms(3)]
  by (metis new_events_trans)

lemma page_entries_other: "is_write ev \<or> is_sleep ev \<Longrightarrow> page_entries env ev = []"
  by (cases ev) (simp_all add: page_entries_def)

lemma page_entries_skip:
  "list_all is_write ws \<Longrightarrow> concat (map (page_entries env) ws) = []"
  "list_all is_sleep ws \<Longrightarrow> concat (map (page_entries env) ws) = []"
  by (induction ws) (simp_all add: page_entries_other)

lemma not_fetch: "is_write ev \<or> is_sleep ev \<Longrightarrow> \<not> is_fetch ev \<and> \<not> failed_get ev"
  by (cases ev) simp_all

lemma filter_fetch_skip:
  "list_all is_write ws \<Longrightarrow> filter is_fetch ws = []"
  "list_all is_sleep ws \<Longrightarrow> filter is_fetch ws = []"
  by (induction ws) (simp_all add: not_fetch)

lemma no_failed_get_skip:
  "list_all is_write ws \<Longrightarrow> \<not> list_ex failed_get ws"
  "list_all is_sleep ws \<Longrightarrow> \<not> list_ex failed_get ws"
  by (induction ws) (simp_all add: not_fetch)

lemma not_continues_small: "count \<le> limit \<Longrightarrow> \<not> continues count limit rsp"
  by (simp add: continues_def nextCount_def)

text \<open>A page that fails adds at most one fetch.\<close>

lemma fetch_data_at_most_one:
  "fetch_data env self t1 t2 si limit w = (r, w1)
   \<Longrightarrow> length (filter is_fetch (new_events w w1)) \<le> 1"
  by (auto simp: fetch_data_def new_events_def Let_def split: if_splits option.splits sum.splits)

lemma fetch_page_at_most_one:
  "fetch_page env si limit self w = (r, self1, w1)
   \<Longrightarrow> length (filter is_fetch (new_events w w1)) \<le> 1"
  by (auto simp: fetch_page_def split: option.splits sum.splits prod.splits
      dest!: fetch_data_at_most_one) (simp_all add: new_events_def)

text \<open>A response with a status other than 200 ends the page with the exception.\<close>

lemma fetch_data_failed_get:
  assumes "fetch_data env self t1 t2 si limit w = (r, w1)"
    and "ev \<in> set (new_events w w1)" and "failed_get ev"
  shows "\<exists>rq resp. ev = HttpGet rq resp \<and> new_events w w1 = [ev]
           \<and> r = Inl (HttpError ''get operations'' (status_code resp) (resp_text resp))"
  using assms
  by (auto simp: fetch_data_def new_events_def Let_def split: if_splits option.splits sum.splits)

lemma fetch_page_failed_get:
  assumes "fetch_page env si limit self w = (r, self1, w1)"
    and "ev \<in> set (new_events w w1)" and "failed_get ev"
  shows "\<exists>rq resp. ev = HttpGet rq resp \<and> new_events w w1 = [ev]
           \<and> r = Inl (HttpError ''get operations'' (status_code resp) (resp_text resp))"
proof -
  from assms(1) consider (early) "w1 = w"
    | (data) t1 t2 d where "fetch_data env self t1 t2 si limit w = (d, w1)"
        "\<And>e. d = Inl e \<Longrightarrow> r = Inl e" "\<And>x. d = Inr x \<Longrightarrow> \<not> failed_get ev"
    using assms(2,3)
    by (auto simp: fetch_page_def split: option.splits sum.splits prod.splits
        dest!: fetch_data_ok) (auto simp: new_events_def dest: not_fetch [OF disjI1] simp: list_all_iff)
  then show ?thesis
  proof cases
    case early
    with assms(2) show ?thesis by (simp add: new_events_def)
  next
    case data
    from fetch_data_failed_get [OF data(1) assms(2,3)] data(2) show ?thesis
      by auto
  qed
qed

lemma fetch_page_ok_no_failed:
  "fetch_page env si limit self w = (Inr rsp, self1, w1) \<Longrightarrow> \<not> list_ex failed_get (new_events w w1)"
  by (auto dest!: fetch_page_ok simp: no_failed_get_skip)

lemma deferred_failed_get:
  assumes "deferred_get_operations env self w = (res, self', w')"
    and "ev \<in> set (new_events w w')" and "failed_get ev"
  shows "\<exists>rq resp. ev = HttpGet rq resp \<and> new_events w w' = [ev]
           \<and> res = Some (HttpError ''get deferred operations'' (status_code resp) (resp_text resp))"
  using assms
  by (auto simp: deferred_get_operations_def deferred_fetch_data_def new_events_def Let_def
      split: if_splits option.splits sum.splits prod.splits)

lemma get_operations_failed_get:
  assumes "get_operations env count startIndex limit sleep self w = (res, self', w')"
    and "ev \<in> set (new_events w w')" and "failed_get ev"
  shows "\<exists>rq resp pre. ev = HttpGet rq resp \<and> new_events w w' = pre @ [ev]
           \<and> \<not> list_ex failed_get pre
           \<and> res = Some (HttpError ''get operations'' (status_code resp) (resp_text resp))"
  using assms
proof (induction rule: get_operations_run_induct)
  case (fail count startIndex limit sleep self w e self1 w1)
  from fetch_page_failed_get [OF fail(1,2,3)] show ?case
    by fastforce
next
  case (stop count startIndex limit sleep self w rsp self1 w1)
  with fetch_page_ok_no_failed [OF stop(1)] show ?case
    by (auto simp: list_ex_iff)
next
  case (sleep_fail count startIndex limit sleep self w rsp self1 w1 e)
  with fetch_page_ok_no_failed [OF sleep_fail(1)] show ?case
    by (auto simp: list_ex_iff)
next
  case (continue count startIndex limit sleep self w rsp self1 w1 w2 cursor res self' w')
  note split = get_operations_split [OF continue(1) continue(3) continue(5)]
  have a: "\<not> list_ex failed_get (new_events w w1)"
    by (rule fetch_page_ok_no_failed [OF continue(1)])
  have b: "\<not> list_ex failed_get (new_events w1 w2)"
    using do_sleep_events [OF continue(3)] by (simp add: no_failed_get_skip)
  from continue(7,8) split a b have "ev \<in> set (new_events w2 w')"
    by (auto simp: list_ex_iff)
  from continue(6) [OF this continue(8)] obtain rq resp pre where
    c: "ev = HttpGet rq resp" "new_events w2 w' = pre @ [ev]" "\<not> list_ex failed_get pre"
       "res = Some (HttpError ''get operations'' (status_code resp) (resp_text resp))"
    by blast
  let ?pre = "new_events w w1 @ new_events w1 w2 @ pre"
  from split a b c have "new_events w w' = ?pre @ [ev] \<and> \<not> list_ex failed_get ?pre"
    by (auto simp: list_ex_iff)
  with c show ?case by blast
qed

lemma map_Inr_not_isl: "map f xs = map Inr ops \<Longrightarrow> list_all (\<lambda>x. \<not> isl (f x)) xs"
  by (induction xs arbitrary: ops) auto

lemma page_ok_other: "is_write ev \<or> is_sleep ev \<Longrightarrow> page_ok env ev"
  by (cases ev) (simp_all add: page_ok_def)

lemma page_ok_skip:
  "list_all is_write ws \<Longrightarrow> list_all (page_ok env) ws"
  "list_all is_sleep ws \<Longrightarrow> list_all (page_ok env) ws"
  by (induction ws) (simp_all add: page_ok_other)

lemma fetch_page_ok_pages:
  assumes "fetch_page env si limit self w = (Inr rsp, self1, w1)"
  shows "list_all (page_ok env) (new_events w w1)"
proof -
  from fetch_page_ok [OF assms] obtain ev ws data xs ops where
    *: "new_events w w1 = ev # ws" "is_fetch ev" "\<not> failed_get ev" "list_all is_write ws"
       "page_text env ev = Some data" "decode_entries env data = Some xs"
       "map Operation_init xs = map Inr ops"
    by blast
  from *(7) have "list_all (\<lambda>x. \<not> isl (Operation_init x)) xs"
    by (rule map_Inr_not_isl)
  with * show ?thesis
    by (simp add: page_ok_def page_ok_skip)
qed

lemma get_operations_ok_pages:
  "get_operations env count startIndex limit sleep self w = (None, self', w')
   \<Longrightarrow> list_all (page_ok env) (new_events w w')"
proof (induction count startIndex limit sleep self w "None :: error option" self' w'
    rule: get_operations_run_induct)
  case (stop count startIndex limit sleep self w rsp self1 w1)
  then show ?case by (simp add: fetch_page_ok_pages)
next
  case (continue count startIndex limit sleep self w rsp self1 w1 w2 cursor self' w')
  from get_operations_split [OF continue(1) continue(3) continue(5)]
    fetch_page_ok_pages [OF continue(1)] do_sleep_events [OF continue(3)] continue(6)
  show ?case
    by (simp add: page_ok_skip)
qed



lemma build_request_params:
  assumes "build_request env self t1 t2 startIndex limit = Inr rq"
  shows "if startIndex = JNull
         then has_param ''dateFin'' rq \<and> \<not> has_param ''startIndex'' rq
         else has_param ''startIndex'' rq \<and> \<not> has_param ''dateFin'' rq
            \<and> (\<exists>s. startIndex = JStr s
                  \<and> map_of (query rq) ''startIndex'' = Some (QText (quote env s)))"
  using assms
  by (auto simp: build_request_def has_param_def Let_def split: json.splits)

lemma build_request_count:
  "build_request env self t1 t2 startIndex limit = Inr rq
   \<Longrightarrow> map_of (query rq) ''count'' = Some (QNumber limit)"
  by (auto simp: build_request_def Let_def split: json.splits)

lemma fetch_data_requests:
  assumes "fetch_data env self t1 t2 si limit w = (r, w1)"
    and "HttpGet rq resp \<in> set (new_events w w1)"
  shows "build_request env self t1 t2 si limit = Inr rq"
  using assms
  by (auto simp: fetch_data_def new_events_def Let_def split: if_splits option.splits sum.splits)

lemma fetch_page_requests:
  assumes "fetch_page env si limit self w = (r, self1, w1)"
    and "HttpGet rq resp \<in> set (new_events w w1)"
  shows "\<exists>t1 t2. build_request env self t1 t2 si limit = Inr rq"
  using assms
  by (auto simp: fetch_page_def split: option.splits sum.splits prod.splits
      dest: fetch_data_requests) (simp_all add: new_events_def)

lemma get_operations_requests:
  assumes "get_operations env count startIndex limit sleep self w = (res, self', w')"
    and "HttpGet rq resp \<in> set (new_events w w')"
  shows "\<exists>self0 t1 t2 c l. build_request env self0 t1 t2 c l = Inr rq"
  using assms
proof (induction rule: get_operations_run_induct)
  case (continue count startIndex limit sleep self w rsp self1 w1 w2 cursor res self' w')
  note split = get_operations_split [OF continue(1) continue(3) continue(5)]
  from do_sleep_events [OF continue(3)]
  have "HttpGet rq resp \<notin> set (new_events w1 w2)"
    by (auto simp: list_all_iff)
  with continue(7) split
  consider "HttpGet rq resp \<in> set (new_events w w1)" | "HttpGet rq resp \<in> set (new_events w2 w')"
    by auto
  then show ?case
  proof cases
    case 1
    from fetch_page_requests [OF continue(1) 1] show ?thesis by blast
  next
    case 2
    from continue(6) [OF 2] show ?thesis .
  qed
qed (blast dest: fetch_page_requests)+

lemma get_operations_first_page:
  assumes "fetch_page env startIndex limit self w = (r, self1, w1)"
    and "get_operations env count startIndex limit sleep self w = (res, self', w')"
  shows "\<exists>evs. new_events w w' = new_events w w1 @ evs"
proof (cases r)
  case (Inl e)
  with assms show ?thesis by (simp add: get_operations.simps)
next
  case (Inr rsp)
  note fp = assms(1) [unfolded Inr]
  show ?thesis
  proof (cases "continues count limit rsp")
    case False
    with fp assms(2) show ?thesis by (simp add: get_operations.simps)
  next
    case True
    show ?thesis
    proof (cases "do_sleep sleep w1")
      case (Inl e)
      with True fp assms(2) show ?thesis by (simp add: get_operations.simps)
    next
      case sl: (Inr w2)
      from True obtain cursor where cur: "getitem rsp ''nextSetStartIndex'' = Inr cursor"
        by (cases rsp) (auto simp: continues_def split: option.splits)
      with True fp sl assms(2)
      have "get_operations env (nextCount count limit) cursor 30 SleepNone self1 w2
              = (res, self', w')"
        by (simp add: get_operations.simps)
      from get_operations_split [OF fp sl this] show ?thesis by blast
    qed
  qed
qed

lemma build_request_ok:
  "startIndex = JNull \<or> (\<exists>c. startIndex = JStr c)
   \<Longrightarrow> \<exists>rq. build_request env self t1 t2 startIndex limit = Inr rq"
  by (auto simp: build_request_def Let_def)

lemma fetch_data_live_first:
  assumes "\<not> useMocks (session self)"
    and "fetch_data env self t1 t2 JNull limit w = (r, w1)"
  shows "\<exists>rq resp ws. new_events w w1 = HttpGet rq resp # ws
           \<and> map_of (query rq) ''count'' = Some (QNumber limit)"
proof -
  obtain rq where b: "build_request env self t1 t2 JNull limit = Inr rq"
    using build_request_ok by blast
  with assms have "\<exists>resp ws. new_events w w1 = HttpGet rq resp # ws"
    by (auto simp: fetch_data_def new_events_def Let_def
        split: option.splits sum.splits if_splits)
  with build_request_count [OF b] show ?thesis by blast
qed

lemma fetch_page_live_first:
  assumes "\<not> useMocks (session self)"
    and "timestamp env (date_start self) \<noteq> None" and "timestamp env (date_stop self) \<noteq> None"
    and "fetch_page env JNull limit self w = (r, self1, w1)"
  shows "\<exists>rq resp ws. new_events w w1 = HttpGet rq resp # ws
           \<and> map_of (query rq) ''count'' = Some (QNumber limit)"
proof -
  from assms(2,3,4) obtain t1 t2 d where
    "fetch_data env self t1 t2 JNull limit w = (d, w1)"
    by (auto simp: fetch_page_def split: option.splits sum.splits prod.splits)
  from fetch_data_live_first [OF assms(1) this] show ?thesis .
qed






lemma same_config_fields:
  assumes "same_config self self1"
  shows "session self1 = session self" and "compteIdx self1 = compteIdx self"
    and "grandeFamilleCode self1 = grandeFamilleCode self"
    and "date_start self1 = date_start self" and "date_stop self1 = date_stop self"
proof -
  let ?u = "self\<lparr>list_operations := list_operations self1\<rparr>"
  from assms have eq: "self1 = ?u" by (simp only: same_config_def)
  have "session self1 = session ?u" "compteIdx self1 = compteIdx ?u"
    "grandeFamilleCode self1 = grandeFamilleCode ?u"
    "date_start self1 = date_start ?u" "date_stop self1 = date_stop ?u"
    using eq by (rule arg_cong)+
  then show "session self1 = session self" and "compteIdx self1 = compteIdx self"
    and "grandeFamilleCode self1 = grandeFamilleCode self"
    and "date_start self1 = date_start self" and "date_stop self1 = date_stop self"
    by simp_all
qed




text \<open>The list grows by the Operations of the pages fetched, in fetch order.\<close>

lemma get_operations_appends_pages:
  "get_operations env count startIndex limit sleep self w = (None, self', w') \<Longrightarrow>
     \<exists>ops. list_operations self' = list_operations self @ ops
       \<and> map Operation_init (concat (map (page_entries env) (new_events w w'))) = map Inr ops"
proof (induction count startIndex limit sleep self w "None :: error option" self' w'
    rule: get_operations_run_induct)
  case (stop count startIndex limit sleep self w rsp self1 w1)
  from fetch_page_ok [OF stop(1)] show ?case
    by (auto simp: page_entries_def page_entries_skip)
next
  case (continue count startIndex limit sleep self w rsp self1 w1 w2 cursor self' w')
  from fetch_page_ok [OF continue(1)] obtain ops1 where
    a: "list_operations self1 = list_operations self @ ops1"
       "map Operation_init (concat (map (page_entries env) (new_events w w1))) = map Inr ops1"
    by (auto simp: page_entries_def page_entries_skip)
  from continue(6) obtain ops2 where
    b: "list_operations self' = list_operations self1 @ ops2"
       "map Operation_init (concat (map (page_entries env) (new_events w2 w'))) = map Inr ops2"
    by blast
  from do_sleep_events [OF continue(3)]
  have c: "concat (map (page_entries env) (new_events w1 w2)) = []"
    by (simp add: page_entries_skip)
  from get_operations_split [OF continue(1) continue(3) continue(5)] a b c
  have "list_operations self' = list_operations self @ (ops1 @ ops2)
      \<and> map Operation_init (concat (map (page_entries env) (new_events w w'))) = map Inr (ops1 @ ops2)"
    by simp
  then show ?case by blast
qed

section \<open>Sleeps and fetches of a run\<close>

lemma fetch_data_exactly_one:
  assumes "useMocks (session self) \<or> startIndex = JNull \<or> (\<exists>c. startIndex = JStr c)"
    and "fetch_data env self t1 t2 startIndex limit w = (r, w1)"
  shows "length (filter is_fetch (new_events w w1)) = 1"
proof (cases "useMocks (session self)")
  case True
  with assms(2) show ?thesis
    by (auto simp: fetch_data_def new_events_def Let_def split: option.splits)
next
  case False
  with assms(1) obtain rq where "build_request env self t1 t2 startIndex limit = Inr rq"
    using build_request_ok by blast
  with False assms(2) show ?thesis
    by (auto simp: fetch_data_def new_events_def Let_def split: option.splits sum.splits if_splits)
qed

lemma fetch_page_exactly_one:
  assumes "timestamp env (date_start self) \<noteq> None" and "timestamp env (date_stop self) \<noteq> None"
    and "useMocks (session self) \<or> startIndex = JNull \<or> (\<exists>c. startIndex = JStr c)"
    and "fetch_page env startIndex limit self w = (r, self1, w1)"
  shows "length (filter is_fetch (new_events w w1)) = 1"
proof -
  from assms(1,2,4) obtain t1 t2 d where
    "fetch_data env self t1 t2 startIndex limit w = (d, w1)"
    by (auto simp: fetch_page_def split: option.splits sum.splits prod.splits)
  from fetch_data_exactly_one [OF assms(3) this] show ?thesis .
qed

lemma fetch_data_no_sleep:
  "fetch_data env self t1 t2 si limit w = (r, w1) \<Longrightarrow> filter is_sleep (new_events w w1) = []"
  by (auto simp: fetch_data_def new_events_def Let_def split: option.splits sum.splits if_splits)

lemma fetch_page_no_sleep:
  "fetch_page env si limit self w = (r, self1, w1) \<Longrightarrow> filter is_sleep (new_events w w1) = []"
  by (auto simp: fetch_page_def split: option.splits sum.splits prod.splits
      dest: fetch_data_no_sleep) (simp_all add: new_events_def)

lemma get_operations_no_sleep:
  assumes "get_operations env count startIndex limit sleep self w = (res, self', w')"
    and "sleep = SleepNone"
  shows "filter is_sleep (new_events w w') = []"
  using assms
proof (induction rule: get_operations_run_induct)
  case (continue count startIndex limit sleep self w rsp self1 w1 w2 cursor res self' w')
  from continue(3,7) have "w2 = w1"
    by (simp add: do_sleep_def)
  then have "new_events w1 w2 = []"
    by (simp add: new_events_def)
  with get_operations_split [OF continue(1) continue(3) continue(5)]
    fetch_page_no_sleep [OF continue(1)] continue(6)
  show ?case by simp
qed (simp_all add: fetch_page_no_sleep)

text \<open>However many pages a retrieval fetches, it sleeps at most once.\<close>

lemma get_operations_sleeps_once:
  assumes "get_operations env count startIndex limit sleep self w = (res, self', w')"
  shows "length (filter is_sleep (new_events w w')) \<le> 1"
  using assms
proof (induction rule: get_operations_run_induct)
  case (continue count startIndex limit sleep self w rsp self1 w1 w2 cursor res self' w')
  from continue(3) have "length (new_events w1 w2) \<le> 1"
    by (auto simp: do_sleep_def new_events_def split: sleep_arg.splits if_splits)
  then have "length (filter is_sleep (new_events w1 w2)) \<le> 1"
    by (meson length_filter_le order_trans)
  with get_operations_split [OF continue(1) continue(3) continue(5)]
    fetch_page_no_sleep [OF continue(1)] get_operations_no_sleep [OF continue(5) refl]
  show ?case by simp
qed (simp_all add: fetch_page_no_sleep)

lemma nextCount_step:
  "0 < n \<Longrightarrow> 1 + nat ((nextCount n 30 + 29) div 30) = nat ((n + 29) div 30)"
  by (auto simp: nextCount_def)

text \<open>
  A retrieval makes at most one fetch for the first page and one for every 30 records
  of what the first page left to fetch.
\<close>

lemma get_operations_fetch_bound:
  assumes "get_operations env count startIndex limit sleep self w = (res, self', w')"
  shows "length (filter is_fetch (new_events w w'))
           \<le> 1 + nat ((nextCount count limit + 29) div 30)"
  using assms
proof (induction rule: get_operations_run_induct)
  case (continue count startIndex limit sleep self w rsp self1 w1 w2 cursor res self' w')
  from continue(2) have pos: "0 < nextCount count limit"
    by (simp add: continues_def)
  from do_sleep_events [OF continue(3)] have "filter is_fetch (new_events w1 w2) = []"
    by (simp add: filter_fetch_skip)
  with get_operations_split [OF continue(1) continue(3) continue(5)]
    fetch_page_at_most_one [OF continue(1)] continue(6)
  have "length (filter is_fetch (new_events w w'))
          \<le> 1 + (1 + nat ((nextCount (nextCount count limit) 30 + 29) div 30))"
    by simp
  with nextCount_step [OF pos] show ?case by simp
qed (auto dest: fetch_page_at_most_one)

lemma append_operations_all:
  "list_all (\<lambda>x. \<not> isl (Operation_init x)) xs \<Longrightarrow> fst (append_operations xs acc) = None"
proof (induction xs arbitrary: acc)
  case Nil
  show ?case by simp
next
  case (Cons x xs)
  then show ?case by (cases "Operation_init x") simp_all
qed

lemma getitem_contains: "getitem rsp k = Inr v \<Longrightarrow> contains k rsp"
  by (cases rsp) (auto split: option.splits)

lemma save_operations_more:
  assumes "more_page env r"
  shows "\<exists>rsp self1. save_operations env (resp_text r) self = (Inr rsp, self1)
           \<and> getitem rsp ''hasNext'' = Inr (JBool True)
           \<and> (\<exists>c. getitem rsp ''nextSetStartIndex'' = Inr (JStr c))"
proof -
  from assms obtain rsp xs where
    l: "loads env (resp_text r) = Some rsp"
    and d: "decode_entries env (resp_text r) = Some xs"
    and a: "list_all (\<lambda>x. \<not> isl (Operation_init x)) xs"
    and h: "getitem rsp ''hasNext'' = Inr (JBool True)"
    and c: "\<exists>c. getitem rsp ''nextSetStartIndex'' = Inr (JStr c)"
    by (auto simp: more_page_def split: option.splits sum.splits json.splits)
  from l d obtain lo where g: "getitem rsp ''listeOperations'' = Inr lo" "iter lo = Inr xs"
    by (auto simp: decode_entries_def split: sum.splits)
  obtain acc where "append_operations xs (list_operations self) = (None, acc)"
    using append_operations_all [OF a, of "list_operations self"]
    by (cases "append_operations xs (list_operations self)") auto
  with l g have "save_operations env (resp_text r) self
      = (Inr rsp, self\<lparr>list_operations := acc\<rparr>)"
    by (simp add: save_operations_def)
  with h c show ?thesis by blast
qed

lemma fetch_data_more:
  assumes "\<not> useMocks (session self)"
    and "startIndex = JNull \<or> (\<exists>c. startIndex = JStr c)"
    and "\<forall>s rq. more_page env (fst (http_get env s rq))"
  shows "\<exists>r w1. fetch_data env self t1 t2 startIndex limit w = (Inr (resp_text r), w1)
           \<and> more_page env r"
proof -
  obtain rq where b: "build_request env self t1 t2 startIndex limit = Inr rq"
    using build_request_ok [OF assms(2)] by blast
  let ?r = "fst (http_get env (server w) rq)"
  from assms(3) have m: "more_page env ?r" by blast
  then obtain rsp lo where "status_code ?r = 200" "loads env (resp_text ?r) = Some rsp"
    "getitem rsp ''listeOperations'' = Inr lo"
    by (auto simp: more_page_def decode_entries_def split: option.splits sum.splits)
  with b assms(1) have "\<exists>w1. fetch_data env self t1 t2 startIndex limit w
      = (Inr (resp_text ?r), w1)"
    by (simp add: fetch_data_def Let_def)
  with m show ?thesis by blast
qed

lemma fetch_page_more:
  assumes "\<not> useMocks (session self)"
    and "timestamp env (date_start self) \<noteq> None" and "timestamp env (date_stop self) \<noteq> None"
    and "startIndex = JNull \<or> (\<exists>c. startIndex = JStr c)"
    and "\<forall>s rq. more_page env (fst (http_get env s rq))"
  shows "\<exists>rsp self1 w1. fetch_page env startIndex limit self w = (Inr rsp, self1, w1)
           \<and> getitem rsp ''hasNext'' = Inr (JBool True)
           \<and> (\<exists>c. getitem rsp ''nextSetStartIndex'' = Inr (JStr c))"
proof -
  from assms(2,3) obtain t1 t2 where
    t: "timestamp env (date_start self) = Some t1" "timestamp env (date_stop self) = Some t2"
    by auto
  from fetch_data_more [OF assms(1,4,5)] obtain r w1 where
    fd: "fetch_data env self (t1 * 1000) (t2 * 1000) startIndex limit w = (Inr (resp_text r), w1)"
    and m: "more_page env r"
    by blast
  from save_operations_more [OF m] obtain rsp self1 where
    so: "save_operations env (resp_text r) self = (Inr rsp, self1)"
    and h: "getitem rsp ''hasNext'' = Inr (JBool True)"
      "\<exists>c. getitem rsp ''nextSetStartIndex'' = Inr (JStr c)"
    by blast
  from t fd so have "fetch_page env startIndex limit self w = (Inr rsp, self1, w1)"
    by (simp add: fetch_page_def)
  with h show ?thesis by blast
qed

text \<open>
  Against a server that always announces more, a live retrieval returns after one fetch
  for the first page and one for every 30 records of what the first page left to fetch.
\<close>

lemma get_operations_fetch_count:
  assumes "\<not> useMocks (session self)"
    and "timestamp env (date_start self) \<noteq> None" and "timestamp env (date_stop self) \<noteq> None"
    and "startIndex = JNull \<or> (\<exists>c. startIndex = JStr c)"
    and "\<forall>d. sleep = SleepNumber d \<longrightarrow> 0 \<le> d"
    and "\<forall>s rq. more_page env (fst (http_get env s rq))"
  shows "\<exists>self' w'. get_operations env count startIndex limit sleep self w = (None, self', w')
           \<and> length (filter is_fetch (new_events w w'))
              = 1 + nat ((nextCount count limit + 29) div 30)"
  using assms
proof (induction env count startIndex limit sleep self w rule: get_operations.induct)
  case (1 env count startIndex limit sleep self w)
  from fetch_page_more [OF "1.prems"(1,2,3,4,6)] obtain rsp self1 w1 c where
    fp: "fetch_page env startIndex limit self w = (Inr rsp, self1, w1)"
    and h: "getitem rsp ''hasNext'' = Inr (JBool True)"
    and cur: "getitem rsp ''nextSetStartIndex'' = Inr (JStr c)"
    by blast
  have one: "length (filter is_fetch (new_events w w1)) = 1"
    using fetch_page_ok [OF fp] by (auto simp: filter_fetch_skip)
  show ?case
  proof (cases "0 < nextCount count limit")
    case False
    then have "\<not> continues count limit rsp"
      by (simp add: continues_def)
    with fp have "get_operations env count startIndex limit sleep self w = (None, self1, w1)"
      by (simp add: get_operations.simps)
    with one False show ?thesis by simp
  next
    case True
    with h cur have cont: "continues count limit rsp"
      by (simp add: continues_def getitem_contains)
    from "1.prems"(5) obtain w2 where sl: "do_sleep sleep w1 = Inr w2"
      by (cases sleep) (auto simp: do_sleep_def)
    note cfg = same_config_fields [OF fetch_page_frame [OF fp]]
    from "1.IH" [OF fp [symmetric] refl refl cont sl cur] "1.prems"(1,2,3,6) cfg
    obtain self' w' where
      run: "get_operations env (nextCount count limit) (JStr c) 30 SleepNone self1 w2
              = (None, self', w')"
      and n: "length (filter is_fetch (new_events w2 w'))
              = 1 + nat ((nextCount (nextCount count limit) 30 + 29) div 30)"
      by auto
    from fp cont sl cur run
    have top: "get_operations env count startIndex limit sleep self w = (None, self', w')"
      by (simp add: get_operations.simps)
    from do_sleep_events [OF sl] have "filter is_fetch (new_events w1 w2) = []"
      by (simp add: filter_fetch_skip)
    with get_operations_split [OF fp sl run] one n nextCount_step [OF True]
    have "length (filter is_fetch (new_events w w'))
            = 1 + nat ((nextCount count limit + 29) div 30)"
      by simp
    with top show ?thesis by blast
  qed
qed

text \<open>
  With the page size 30 that is \<open>ceil (count / 30)\<close> fetches for a positive count, and no
  run makes more.
\<close>

lemma default_page_size_fetch_count:
  assumes "0 < count"
    and "\<not> useMocks (session self)"
    and "timestamp env (date_start self) \<noteq> None" and "timestamp env (date_stop self) \<noteq> None"
    and "startIndex = JNull \<or> (\<exists>c. startIndex = JStr c)"
    and "\<forall>d. sleep = SleepNumber d \<longrightarrow> 0 \<le> d"
    and "\<forall>s rq. more_page env (fst (http_get env s rq))"
  shows "\<exists>self' w'. get_operations env count startIndex 30 sleep self w = (None, self', w')
           \<and> length (filter is_fetch (new_events w w')) = nat ((count + 29) div 30)"
  using get_operations_fetch_count [OF assms(2-7), of count 30 w] nextCount_step [OF assms(1)]
  by simp

lemma default_page_size_fetch_bound:
  assumes "0 < count"
    and "get_operations env count startIndex 30 sleep self w = (res, self', w')"
  shows "length (filter is_fetch (new_events w w')) \<le> nat ((count + 29) div 30)"
  using get_operations_fetch_bound [OF assms(2)] nextCount_step [OF assms(1)]
  by simp

section \<open>Properties of the retrievals\<close>

text \<open>
  C7. A successful windowed retrieval appends to the list exactly the entries of the
  pages it fetched, page after page in fetch order and each page in the order of the
  response: the Operation records added are those of the concatenated entry lists, none
  dropped, duplicated or moved. The list starts empty in the constructor, so the object
  the caller receives holds exactly those records.
\<close>

theorem get_operations_concatenates_pages:
  "(get_operations env count startIndex limit sleep self w = (None, self', w')
    \<longrightarrow> (\<exists>ops. list_operations self' = list_operations self @ ops
          \<and> map Operation_init (concat (map (page_entries env) (new_events w w')))
             = map Inr ops))
   \<and> (Operations_init env sess cIdx gfCode dstart dstop n sl v = (Inr obj, v')
    \<longrightarrow> map Operation_init (concat (map (page_entries env) (new_events v v')))
         = map Inr (list_operations obj))"
proof (intro conjI impI)
  assume "get_operations env count startIndex limit sleep self w = (None, self', w')"
  then show "\<exists>ops. list_operations self' = list_operations self @ ops
          \<and> map Operation_init (concat (map (page_entries env) (new_events w w')))
             = map Inr ops"
    by (rule get_operations_appends_pages)
next
  let ?self = "\<lparr>session = sess, compteIdx = cIdx, grandeFamilleCode = gfCode,
                 list_operations = [], date_start = dstart, date_stop = dstop\<rparr>"
  assume init: "Operations_init env sess cIdx gfCode dstart dstop n sl v = (Inr obj, v')"
  then have "get_operations env n JNull 30 sl ?self v = (None, obj, v')"
    by (auto simp: Operations_init_def split: prod.splits option.splits)
  from get_operations_appends_pages [OF this]
  show "map Operation_init (concat (map (page_entries env) (new_events v v')))
         = map Inr (list_operations obj)"
    by simp
qed

theorem get_operations_concatenates_pages_witness:
  "fst two_page_run = None
   \<and> (\<exists>ops. list_operations (fst (snd two_page_run))
               = list_operations (demo_self False False) @ ops
          \<and> map Operation_init (concat (map (page_entries (demo_env two_pages))
                (new_events demo_world (snd (snd two_page_run)))))
              = map Inr ops)
   \<and> map descr (list_operations (fst (snd two_page_run)))
      = [demo_op ''a'', demo_op ''b'', demo_op ''c'']
   \<and> (\<exists>obj. fst (Operations_init (demo_env two_pages) (demo_session False False) ''1'' ''7''
               ''2024-01-01'' ''2024-01-31'' 50 SleepNone demo_world) = Inr obj
          \<and> map Operation_init (concat (map (page_entries (demo_env two_pages))
                (new_events demo_world (snd (Operations_init (demo_env two_pages)
                   (demo_session False False) ''1'' ''7'' ''2024-01-01'' ''2024-01-31'' 50
                   SleepNone demo_world)))))
              = map Inr (list_operations obj))"
proof -
  let ?init = "Operations_init (demo_env two_pages) (demo_session False False) ''1'' ''7''
                 ''2024-01-01'' ''2024-01-31'' 50 SleepNone demo_world"
  have r: "fst two_page_run = None"
    by (simp add: demo_defs model_defs get_operations.simps)
  then have h: "two_page_run = (None, fst (snd two_page_run), snd (snd two_page_run))"
    by (metis prod.collapse)
  have d: "map descr (list_operations (fst (snd two_page_run)))
      = [demo_op ''a'', demo_op ''b'', demo_op ''c'']"
    by (simp add: demo_defs model_defs get_operations.simps)
  have "\<not> isl (fst ?init)"
    by (simp add: demo_defs model_defs get_operations.simps Operations_init_def)
  then obtain obj where o: "fst ?init = Inr obj"
    by (cases "fst ?init") auto
  then have i: "?init = (Inr obj, snd ?init)"
    by (metis prod.collapse)
  note inst = get_operations_concatenates_pages [of "demo_env two_pages" 50 JNull 30 SleepNone
      "demo_self False False" demo_world "fst (snd two_page_run)" "snd (snd two_page_run)"
      "demo_session False False" "''1''" "''7''" "''2024-01-01''" "''2024-01-31''" 50
      SleepNone demo_world obj "snd ?init"]
  from inst h have 1: "\<exists>ops. list_operations (fst (snd two_page_run))
               = list_operations (demo_self False False) @ ops
          \<and> map Operation_init (concat (map (page_entries (demo_env two_pages))
                (new_events demo_world (snd (snd two_page_run)))))
              = map Inr ops"
    by blast
  from inst i have 2: "map Operation_init (concat (map (page_entries (demo_env two_pages))
                (new_events demo_world (snd ?init))))
              = map Inr (list_operations obj)"
    by blast
  from r 1 d o 2 show ?thesis by blast
qed

text \<open>
  C6. When the requested count is below the page size, the retrieval makes at most one
  fetch, exactly one once the dates parse and the cursor, if any, is a string, and when
  it succeeds it has appended the Operation of every entry of that one page, however
  many the page holds: nothing is cut to the requested count.
\<close>

theorem small_count_single_fetch:
  assumes "count < limit"
    and "get_operations env count startIndex limit sleep self w = (res, self', w')"
  shows "length (filter is_fetch (new_events w w')) \<le> 1
     \<and> (timestamp env (date_start self) \<noteq> None \<and> timestamp env (date_stop self) \<noteq> None
          \<and> (useMocks (session self) \<or> startIndex = JNull \<or> (\<exists>c. startIndex = JStr c))
        \<longrightarrow> length (filter is_fetch (new_events w w')) = 1)
     \<and> (res = None \<longrightarrow>
          (\<exists>ev ops. filter is_fetch (new_events w w') = [ev]
             \<and> list_operations self' = list_operations self @ ops
             \<and> map Operation_init (page_entries env ev) = map Inr ops
             \<and> length ops = length (page_entries env ev)))"
proof -
  obtain r self1 w1 where fp: "fetch_page env startIndex limit self w = (r, self1, w1)"
    by (cases "fetch_page env startIndex limit self w") auto
  have stop: "\<And>rsp. \<not> continues count limit rsp"
    using assms(1) by (simp add: not_continues_small)
  have same: "w' = w1"
    using fp assms(2) stop by (cases r) (simp_all add: get_operations.simps)
  have one: "timestamp env (date_start self) \<noteq> None \<and> timestamp env (date_stop self) \<noteq> None
          \<and> (useMocks (session self) \<or> startIndex = JNull \<or> (\<exists>c. startIndex = JStr c))
        \<longrightarrow> length (filter is_fetch (new_events w w')) = 1"
    using fetch_page_exactly_one [OF _ _ _ fp] same by blast
  show ?thesis
  proof (cases r)
    case (Inl e)
    with fp assms(2) have "res = Some e"
      by (simp add: get_operations.simps)
    with fetch_page_at_most_one [OF fp] same one show ?thesis by simp
  next
    case (Inr rsp)
    with fp assms(2) stop have eq: "res = None" "self' = self1"
      by (simp_all add: get_operations.simps)
    from fetch_page_ok [OF fp [unfolded Inr]] obtain ev ws data xs ops where
      *: "new_events w w1 = ev # ws" "is_fetch ev" "list_all is_write ws"
         "page_text env ev = Some data" "decode_entries env data = Some xs"
         "list_operations self1 = list_operations self @ ops"
         "map Operation_init xs = map Inr ops"
      by blast
    then have "page_entries env ev = xs"
      by (simp add: page_entries_def)
    moreover from * have "filter is_fetch (new_events w w1) = [ev]"
      by (simp add: filter_fetch_skip)
    moreover from *(7) have "length ops = length xs"
      by (metis length_map)
    ultimately show ?thesis
      using * eq same one by auto
  qed
qed

theorem small_count_single_fetch_witness:
  "(1::int) < 30
   \<and> timestamp (demo_env two_pages) (date_start (demo_self False False)) \<noteq> None
   \<and> timestamp (demo_env two_pages) (date_stop (demo_self False False)) \<noteq> None
   \<and> fst one_record_run = None
   \<and> length (list_operations (fst (snd one_record_run))) = 2
   \<and> length (filter is_fetch (new_events demo_world (snd (snd one_record_run)))) = 1
   \<and> (\<exists>ev ops. filter is_fetch (new_events demo_world (snd (snd one_record_run))) = [ev]
        \<and> list_operations (fst (snd one_record_run))
          = list_operations (demo_self False False) @ ops
        \<and> map Operation_init (page_entries (demo_env two_pages) ev) = map Inr ops
        \<and> length ops = length (page_entries (demo_env two_pages) ev))"
proof -
  have small: "(1::int) < 30" by simp
  have d1: "timestamp (demo_env two_pages) (date_start (demo_self False False)) \<noteq> None"
    by (simp add: demo_defs)
  have d2: "timestamp (demo_env two_pages) (date_stop (demo_self False False)) \<noteq> None"
    by (simp add: demo_defs)
  have r: "fst one_record_run = None"
    by (simp add: demo_defs model_defs get_operations.simps)
  have n: "length (list_operations (fst (snd one_record_run))) = 2"
    by (simp add: demo_defs model_defs get_operations.simps)
  have h: "one_record_run = (None, fst (snd one_record_run), snd (snd one_record_run))"
    using r by (metis prod.collapse)
  from small_count_single_fetch [OF small h] small d1 d2 r n show ?thesis
    by blast
qed

text \<open>
  C9. The constructor of the windowed retrieval hands no object, hence no list, to the
  caller when any fetch of the retrieval failed, the first or a later one: it returns
  the error.
\<close>

theorem failed_fetch_returns_nothing:
  assumes "Operations_init env sess cIdx gfCode dstart dstop count sleep w = (res, w')"
    and "\<not> list_all (page_ok env) (new_events w w')"
  shows "\<exists>e. res = Inl e"
proof -
  let ?self = "\<lparr>session = sess, compteIdx = cIdx, grandeFamilleCode = gfCode,
                 list_operations = [], date_start = dstart, date_stop = dstop\<rparr>"
  obtain r self1 w1 where run: "get_operations env count JNull 30 sleep ?self w = (r, self1, w1)"
    by (cases "get_operations env count JNull 30 sleep ?self w") auto
  show ?thesis
  proof (cases r)
    case None
    with run assms(1) have "w' = w1"
      by (simp add: Operations_init_def)
    with get_operations_ok_pages [OF run [unfolded None]] assms(2) show ?thesis
      by simp
  next
    case (Some e)
    with run assms(1) show ?thesis
      by (auto simp: Operations_init_def)
  qed
qed

theorem failed_fetch_returns_nothing_witness:
  "\<not> list_all (page_ok (demo_env fail_second))
        (new_events demo_world (snd (Operations_init (demo_env fail_second)
           (demo_session False False) ''1'' ''7'' ''2024-01-01'' ''2024-01-31'' 90 SleepNone
           demo_world)))
   \<and> (\<exists>e. fst (Operations_init (demo_env fail_second) (demo_session False False) ''1'' ''7''
           ''2024-01-01'' ''2024-01-31'' 90 SleepNone demo_world) = Inl e)"
proof -
  let ?run = "Operations_init (demo_env fail_second) (demo_session False False) ''1'' ''7''
                ''2024-01-01'' ''2024-01-31'' 90 SleepNone demo_world"
  have bad: "\<not> list_all (page_ok (demo_env fail_second)) (new_events demo_world (snd ?run))"
    by (simp add: demo_defs model_defs get_operations.simps Operations_init_def new_events_def
        page_ok_def decode_entries_def)
  have h: "?run = (fst ?run, snd ?run)" by simp
  from failed_fetch_returns_nothing [OF h bad] bad show ?thesis
    by blast
qed



text \<open>
  C8. In a live retrieval, windowed or card, a response whose status is not 200 makes the
  retrieval raise the exception built from that status and that body, and the failed
  request is the last thing the retrieval did: no other request came after it, and no
  earlier request of the retrieval had failed, so nothing was retried.
\<close>

theorem http_failure_is_fatal:
  "(get_operations env count startIndex limit sleep self w = (res, self', w')
      \<and> ev \<in> set (new_events w w') \<and> failed_get ev
    \<longrightarrow> (\<exists>rq r pre. ev = HttpGet rq r \<and> status_code r \<noteq> 200
           \<and> res = Some (HttpError ''get operations'' (status_code r) (resp_text r))
           \<and> new_events w w' = pre @ [ev] \<and> \<not> list_ex failed_get pre))
   \<and> (deferred_get_operations env dself dw = (dres, dself', dw')
      \<and> dev \<in> set (new_events dw dw') \<and> failed_get dev
    \<longrightarrow> (\<exists>rq r. dev = HttpGet rq r \<and> status_code r \<noteq> 200
           \<and> dres = Some (HttpError ''get deferred operations'' (status_code r) (resp_text r))
           \<and> new_events dw dw' = [dev]))"
proof (intro conjI impI; elim conjE)
  assume "get_operations env count startIndex limit sleep self w = (res, self', w')"
    "ev \<in> set (new_events w w')" "failed_get ev"
  from get_operations_failed_get [OF this] this(3)
  show "\<exists>rq r pre. ev = HttpGet rq r \<and> status_code r \<noteq> 200
           \<and> res = Some (HttpError ''get operations'' (status_code r) (resp_text r))
           \<and> new_events w w' = pre @ [ev] \<and> \<not> list_ex failed_get pre"
    by auto
next
  assume "deferred_get_operations env dself dw = (dres, dself', dw')"
    "dev \<in> set (new_events dw dw')" "failed_get dev"
  from deferred_failed_get [OF this] this(3)
  show "\<exists>rq r. dev = HttpGet rq r \<and> status_code r \<noteq> 200
           \<and> dres = Some (HttpError ''get deferred operations'' (status_code r) (resp_text r))
           \<and> new_events dw dw' = [dev]"
    by auto
qed

theorem http_failure_is_fatal_witness:
  "failed_get (last (events (snd (snd failing_run))))
   \<and> last (events (snd (snd failing_run))) \<in> set (new_events demo_world (snd (snd failing_run)))
   \<and> (\<exists>rq r pre. last (events (snd (snd failing_run))) = HttpGet rq r \<and> status_code r \<noteq> 200
         \<and> fst failing_run = Some (HttpError ''get operations'' (status_code r) (resp_text r))
         \<and> new_events demo_world (snd (snd failing_run))
            = pre @ [last (events (snd (snd failing_run)))]
         \<and> \<not> list_ex failed_get pre)
   \<and> fst failing_run = Some (HttpError ''get operations'' 500 ''down'')
   \<and> failed_get (last (events (snd (snd failing_card_run))))
   \<and> last (events (snd (snd failing_card_run)))
        \<in> set (new_events demo_world (snd (snd failing_card_run)))
   \<and> (\<exists>rq r. last (events (snd (snd failing_card_run))) = HttpGet rq r \<and> status_code r \<noteq> 200
         \<and> fst failing_card_run
            = Some (HttpError ''get deferred operations'' (status_code r) (resp_text r))
         \<and> new_events demo_world (snd (snd failing_card_run))
            = [last (events (snd (snd failing_card_run)))])"
proof -
  let ?ev = "last (events (snd (snd failing_run)))"
  let ?dev = "last (events (snd (snd failing_card_run)))"
  have h: "failing_run = (fst failing_run, fst (snd failing_run), snd (snd failing_run))"
    by simp
  have m: "?ev \<in> set (new_events demo_world (snd (snd failing_run)))"
    by (simp add: demo_defs model_defs get_operations.simps new_events_def)
  have f: "failed_get ?ev"
    by (simp add: demo_defs model_defs get_operations.simps)
  have s: "fst failing_run = Some (HttpError ''get operations'' 500 ''down'')"
    by (simp add: demo_defs model_defs get_operations.simps)
  have dh: "failing_card_run
      = (fst failing_card_run, fst (snd failing_card_run), snd (snd failing_card_run))"
    by simp
  have dm: "?dev \<in> set (new_events demo_world (snd (snd failing_card_run)))"
    by (simp add: demo_defs model_defs new_events_def)
  have df: "failed_get ?dev"
    by (simp add: demo_defs model_defs)
  from http_failure_is_fatal [of "demo_env fail_second" 90 JNull 30 SleepNone
      "demo_self False False" demo_world "fst failing_run" "fst (snd failing_run)"
      "snd (snd failing_run)" ?ev]
    h m f
  have w1: "\<exists>rq r pre. ?ev = HttpGet rq r \<and> status_code r \<noteq> 200
           \<and> fst failing_run = Some (HttpError ''get operations'' (status_code r) (resp_text r))
           \<and> new_events demo_world (snd (snd failing_run)) = pre @ [?ev]
           \<and> \<not> list_ex failed_get pre"
    by blast
  from http_failure_is_fatal [of "demo_env always_down" _ _ _ _ _ _ _ _ _ _
      "demo_card False False" demo_world "fst failing_card_run" "fst (snd failing_card_run)"
      "snd (snd failing_card_run)" ?dev]
    dh dm df
  have w2: "\<exists>rq r. ?dev = HttpGet rq r \<and> status_code r \<noteq> 200
           \<and> fst failing_card_run
              = Some (HttpError ''get deferred operations'' (status_code r) (resp_text r))
           \<and> new_events demo_world (snd (snd failing_card_run)) = [?dev]"
    by blast
  from f m w1 s df dm w2 show ?thesis
    by (intro conjI)
qed

text \<open>
  C4. A page request built with a cursor carries the \<open>startIndex\<close> parameter, holding
  the quoted cursor, and no \<open>dateFin\<close>; built without a cursor, as the first page is, it
  carries \<open>dateFin\<close> and no \<open>startIndex\<close>. Every request a retrieval sends is built
  this way, so it carries exactly one of the two.
\<close>

theorem cursor_replaces_end_date:
  "(build_request env self ts_date_debut ts_date_fin cursor limit = Inr rq
    \<longrightarrow> (if cursor = JNull
         then has_param ''dateFin'' rq \<and> \<not> has_param ''startIndex'' rq
         else has_param ''startIndex'' rq \<and> \<not> has_param ''dateFin'' rq
            \<and> (\<exists>s. cursor = JStr s
                  \<and> map_of (query rq) ''startIndex'' = Some (QText (quote env s)))))
   \<and> (get_operations env count startIndex limit sleep self w = (res, self', w')
      \<and> HttpGet rq' resp \<in> set (new_events w w')
    \<longrightarrow> has_param ''startIndex'' rq' \<noteq> has_param ''dateFin'' rq')"
proof (intro conjI impI; (elim conjE)?)
  assume "build_request env self ts_date_debut ts_date_fin cursor limit = Inr rq"
  then show "if cursor = JNull
         then has_param ''dateFin'' rq \<and> \<not> has_param ''startIndex'' rq
         else has_param ''startIndex'' rq \<and> \<not> has_param ''dateFin'' rq
            \<and> (\<exists>s. cursor = JStr s
                  \<and> map_of (query rq) ''startIndex'' = Some (QText (quote env s)))"
    by (rule build_request_params)
next
  assume "get_operations env count startIndex limit sleep self w = (res, self', w')"
    "HttpGet rq' resp \<in> set (new_events w w')"
  from get_operations_requests [OF this] obtain self0 t1 t2 c l where
    "build_request env self0 t1 t2 c l = Inr rq'" by blast
  from build_request_params [OF this]
  show "has_param ''startIndex'' rq' \<noteq> has_param ''dateFin'' rq'"
    by (auto split: if_splits)
qed

theorem cursor_replaces_end_date_witness:
  "build_request (demo_env two_pages) (demo_self False False) 1704067200000 1706659200000
      JNull 30 = Inr first_request
   \<and> has_param ''dateFin'' first_request \<and> \<not> has_param ''startIndex'' first_request
   \<and> build_request (demo_env two_pages) (demo_self False False) 1704067200000 1706659200000
      (JStr ''X'') 30 = Inr second_request
   \<and> has_param ''startIndex'' second_request \<and> \<not> has_param ''dateFin'' second_request
   \<and> (\<exists>s. JStr ''X'' = JStr s
         \<and> map_of (query second_request) ''startIndex''
            = Some (QText (quote (demo_env two_pages) s)))
   \<and> HttpGet second_request \<lparr>status_code = 200, resp_text = ''last''\<rparr>
        \<in> set (new_events demo_world (snd (snd two_page_run)))
   \<and> has_param ''startIndex'' second_request \<noteq> has_param ''dateFin'' second_request"
proof -
  have a: "build_request (demo_env two_pages) (demo_self False False) 1704067200000
      1706659200000 JNull 30 = Inr first_request"
    by (simp add: demo_defs build_request_def first_request_def)
  have b: "build_request (demo_env two_pages) (demo_self False False) 1704067200000
      1706659200000 (JStr ''X'') 30 = Inr second_request"
    by (simp add: demo_defs build_request_def second_request_def)
  have h: "two_page_run = (fst two_page_run, fst (snd two_page_run), snd (snd two_page_run))"
    by simp
  have m: "HttpGet second_request \<lparr>status_code = 200, resp_text = ''last''\<rparr>
             \<in> set (new_events demo_world (snd (snd two_page_run)))"
    by (simp add: demo_defs model_defs get_operations.simps new_events_def second_request_def)
  note inst = cursor_replaces_end_date [of "demo_env two_pages" "demo_self False False"
      1704067200000 1706659200000 "JStr ''X''" 30 second_request
      50 JNull SleepNone demo_world
      "fst two_page_run" "fst (snd two_page_run)" "snd (snd two_page_run)"
      second_request "\<lparr>status_code = 200, resp_text = ''last''\<rparr>"]
  from cursor_replaces_end_date [of "demo_env two_pages" "demo_self False False"
      1704067200000 1706659200000 JNull 30 first_request] a
  have 0: "has_param ''dateFin'' first_request \<and> \<not> has_param ''startIndex'' first_request"
    by simp
  from inst b have 1: "has_param ''startIndex'' second_request
      \<and> \<not> has_param ''dateFin'' second_request
      \<and> (\<exists>s. JStr ''X'' = JStr s
         \<and> map_of (query second_request) ''startIndex''
            = Some (QText (quote (demo_env two_pages) s)))"
    by simp
  from inst h m have 2: "has_param ''startIndex'' second_request
      \<noteq> has_param ''dateFin'' second_request"
    by blast
  from a 0 b 1 m 2 show ?thesis by (intro conjI) blast+
qed

text \<open>
  C1, as the code has it. The first page request of a live retrieval whose dates parse
  carries \<open>count\<close> equal to the page size limit of the call (30 unless the caller gave
  another), whatever the requested count is.
\<close>

theorem first_page_count_is_limit:
  assumes "\<not> useMocks (session self)"
    and "timestamp env (date_start self) \<noteq> None" and "timestamp env (date_stop self) \<noteq> None"
    and "get_operations env count JNull limit sleep self w = (res, self', w')"
  shows "\<exists>ev evs. new_events w w' = ev # evs \<and> is_fetch ev
           \<and> count_param ev = Some (QNumber limit)"
proof -
  obtain r self1 w1 where fp: "fetch_page env JNull limit self w = (r, self1, w1)"
    by (cases "fetch_page env JNull limit self w") auto
  from fetch_page_live_first [OF assms(1,2,3) fp] get_operations_first_page [OF fp assms(4)]
  show ?thesis by fastforce
qed

theorem first_page_count_is_limit_witness:
  "\<not> useMocks (session (demo_self False False))
   \<and> (\<exists>ev evs. new_events demo_world (snd (snd small_run)) = ev # evs \<and> is_fetch ev
         \<and> count_param ev = Some (QNumber 30))"
proof -
  have a: "\<not> useMocks (session (demo_self False False))"
    by (simp add: demo_defs)
  have b: "timestamp (demo_env two_pages) (date_start (demo_self False False)) \<noteq> None"
    by (simp add: demo_defs)
  have c: "timestamp (demo_env two_pages) (date_stop (demo_self False False)) \<noteq> None"
    by (simp add: demo_defs)
  have h: "small_run = (fst small_run, fst (snd small_run), snd (snd small_run))"
    by simp
  from first_page_count_is_limit [OF a b c h] a show ?thesis
    by blast
qed

text \<open>
  C1 as stated fails: asked for 10 records with the page size limit 30, the first
  request carries \<open>count=30\<close>, not \<open>min 10 30\<close>.
\<close>

theorem first_page_count_not_clamped:
  "count_param (hd (events (snd (snd small_run)))) = Some (QNumber 30)
   \<and> count_param (hd (events (snd (snd small_run)))) \<noteq> Some (QNumber (min 10 30))"
  by (simp add: demo_defs model_defs get_operations.simps)




text \<open>
  C2 at a failing input: three pages with \<open>sleep = 2\<close>. The retrieval sleeps between
  the first and the second fetch and not between the second and the third.
\<close>

theorem sleep_only_before_second_page:
  "fst sleep_run = None
   \<and> map (\<lambda>ev. if is_fetch ev then None else Some ev) (events (snd (snd sleep_run)))
      = [None, Some (Sleep 2), None, None]"
  by (simp add: demo_defs model_defs get_operations.simps)

text \<open>
  C5 at a failing input: 50 records asked with page size 10, every page announcing
  more. The retrieval makes 3 fetches, asking for 10, 30 and 30 records, not
  \<open>ceil (50 / 10) = 5\<close>.
\<close>

theorem page_size_reset_after_first_page:
  "fst small_limit_run = None
   \<and> map count_param (events (snd (snd small_limit_run)))
      = [Some (QNumber 10), Some (QNumber 30), Some (QNumber 30)]
   \<and> length (filter is_fetch (events (snd (snd small_limit_run)))) = 3
   \<and> length (filter is_fetch (events (snd (snd small_limit_run)))) \<noteq> nat ((50 + 10 - 1) div 10)"
  by (simp add: demo_defs model_defs get_operations.simps)

end
